theory Spec2Isabelle
  imports Complex_Main "HOL-Library.AList"
begin

section \<open>JavaScript numbers and array helpers\<close>

text \<open>
  Indices, bar counts and millisecond timestamps are integers in every run of the
  program and are modelled as \<open>int\<close>; sums and differences of such integers are exact
  in doubles, their magnitudes staying far below \<open>2^53\<close>. Prices, volumes and pixel
  coordinates are JavaScript doubles, modelled as reals. Where the code turns a computed
  double into an integer (\<open>Math.round\<close>, \<open>Math.floor\<close>: the zoom and the horizontal
  pan), every operation is rounded to the nearest double by \<open>fl\<close> below. The price
  arithmetic of the vertical range, whose results stay real-valued, is exact. The
  vertical-range code can produce the non-finite doubles (\<open>Math.max()\<close> of an empty
  slice is \<open>-Infinity\<close>), so values of the price axis carry them explicitly. The two
  signed zeros are one value \<open>Fin 0\<close>.
\<close>

datatype jsnum = Fin real | PInf | NInf | NaN











text \<open>\<open>Math.round\<close> rounds halves towards \<open>+\<infinity>\<close>.\<close>

definition js_round :: "real \<Rightarrow> int" where
  "js_round x = \<lfloor>x + 1 / 2\<rfloor>"

text \<open>
  Rounding to the nearest double. \<open>rhe\<close> rounds a real to the nearest integer, a tie
  to the even one. \<open>expo x\<close> is the binary exponent of a positive \<open>x\<close>:
  \<open>2^(expo x) \<le> x < 2^(expo x + 1)\<close>. \<open>fl x\<close> keeps 53 significant bits of \<open>x\<close>.
  The exponent is unbounded: overflow to \<open>Infinity\<close> and the subnormal range, both
  far from the magnitudes of the zoom, are not modelled. A decimal literal of the source
  denotes the double nearest to it, \<open>fl (115 / 100)\<close> for \<open>1.15\<close>.
\<close>

definition rhe :: "real \<Rightarrow> int" where
  "rhe q =
     (let f = \<lfloor>q\<rfloor>; d = q - real_of_int f
      in if d < 1 / 2 then f else if 1 / 2 < d then f + 1 else if even f then f else f + 1)"

function expo :: "real \<Rightarrow> int" where
  "expo x =
     (if x \<le> 0 then 0
      else if 2 \<le> x then expo (x / 2) + 1
      else if x < 1 then expo (2 * x) - 1
      else 0)"
  by pat_completeness auto
termination
proof (relation "measure (\<lambda>x. nat \<lfloor>x\<rfloor> + 2 * nat \<lceil>1 / x\<rceil>)")
  show "wf (measure (\<lambda>x. nat \<lfloor>x\<rfloor> + 2 * nat \<lceil>1 / x\<rceil>))" by simp
next
  fix x :: real
  assume a: "\<not> x \<le> 0" "2 \<le> x"
  have f: "\<lfloor>x / 2\<rfloor> < \<lfloor>x\<rfloor>" using a by linarith
  have "0 < 1 / x" "1 / x \<le> 1 / 2" using a by (simp_all add: field_simps)
  then have c1: "\<lceil>1 / x\<rceil> = 1" by linarith
  have "0 < 1 / (x / 2)" "1 / (x / 2) \<le> 1" using a by (simp_all add: field_simps)
  then have c2: "\<lceil>1 / (x / 2)\<rceil> = 1" by linarith
  have "0 \<le> \<lfloor>x / 2\<rfloor>" using a by simp
  with f c1 c2 show "(x / 2, x) \<in> measure (\<lambda>x. nat \<lfloor>x\<rfloor> + 2 * nat \<lceil>1 / x\<rceil>)"
    unfolding in_measure by linarith
next
  fix x :: real
  assume a: "\<not> x \<le> 0" "\<not> 2 \<le> x" "x < 1"
  define y where "y = 1 / x"
  have y: "1 < y" using a by (simp add: y_def field_simps)
  have e: "1 / (2 * x) = y / 2" by (simp add: y_def)
  have f0: "\<lfloor>x\<rfloor> = 0" using a by linarith
  have f1: "\<lfloor>2 * x\<rfloor> \<le> 1" "0 \<le> \<lfloor>2 * x\<rfloor>" using a by linarith+
  have c2: "2 \<le> \<lceil>y\<rceil>" using y by linarith
  have "y \<le> real_of_int \<lceil>y\<rceil>" by linarith
  moreover have "2 \<le> real_of_int \<lceil>y\<rceil>" using c2 by linarith
  ultimately have "y / 2 \<le> real_of_int (\<lceil>y\<rceil> - 1)"
    unfolding of_int_diff of_int_1 by linarith
  then have "\<lceil>y / 2\<rceil> \<le> \<lceil>y\<rceil> - 1" by (rule ceiling_le)
  moreover have "0 < \<lceil>y / 2\<rceil>" using y by linarith
  ultimately have c: "\<lceil>y / 2\<rceil> < \<lceil>y\<rceil>" "0 < \<lceil>y / 2\<rceil>" by simp_all
  show "(2 * x, x) \<in> measure (\<lambda>x. nat \<lfloor>x\<rfloor> + 2 * nat \<lceil>1 / x\<rceil>)"
    using f0 f1 c unfolding e y_def[symmetric] in_measure by (simp add: e y_def[symmetric]) linarith
qed

declare expo.simps [simp del]

definition fl :: "real \<Rightarrow> real" where
  "fl x =
     (if x = 0 then 0
      else (let u = 2 powi (expo \<bar>x\<bar> - 52) in real_of_int (rhe (x / u)) * u))"

text \<open>\<open>xs.slice(s, e)\<close>, with JavaScript's treatment of negative and oversized bounds.\<close>

definition js_slice :: "'a list \<Rightarrow> int \<Rightarrow> int \<Rightarrow> 'a list" where
  "js_slice xs s e =
     (let n = int (length xs);
          k = (if s < 0 then max (n + s) 0 else min s n);
          f = (if e < 0 then max (n + e) 0 else min e n)
      in take (nat (f - k)) (drop (nat k) xs))"

section \<open>Data model\<close>

text \<open>\<open>Kline\<close> and \<open>AggTrade\<close> of \<open>services/binance.ts\<close>.\<close>

record Kline =
  openTime :: int
  "open" :: real
  high :: real
  low :: real
  close :: real
  volume :: real
  closeTime :: int
  quoteAssetVolume :: real
  numberOfTrades :: int
  takerBuyBaseVolume :: real
  takerBuyQuoteVolume :: real
  isClosed :: "bool option"

record AggTrade =
  aggId :: int
  price :: real
  quantity :: real
  timestamp :: int
  isBuyerMaker :: bool

text \<open>
  The mutable cells (\<open>useRef\<close>) of the chart component. \<open>yMin\<close> and \<open>yMax\<close> are
  \<open>null\<close> (\<open>None\<close>) until a vertical gesture stores a range.
\<close>

record view =
  startIndex :: int
  visibleCount :: int
  isDragging :: bool
  lastX :: real
  lastMouseX :: real
  lastMouseY :: real
  yMin :: "jsnum option"
  yMax :: "jsnum option"
  autoY :: bool
  isResizingY :: bool
  resizeAnchorY :: real
  resizeAnchorPrice :: jsnum
  resizeInitialRange :: jsnum
  resizeStartMouseY :: real
  resizeAnchorTopRatio :: jsnum

definition PADDING_LEFT :: real where "PADDING_LEFT = 10"
definition PADDING_RIGHT :: real where "PADDING_RIGHT = 60"

section \<open>Viewport clamping\<close>

text \<open>\<open>clampViewportLocal\<close>: \<open>d\<close> is the component's \<open>data\<close> prop.\<close>

definition clampViewportLocal :: "Kline list \<Rightarrow> view \<Rightarrow> view" where
  "clampViewportLocal d st =
     (let visible = max 10 (min (int (length d)) (visibleCount st));
          st1 = st\<lparr>visibleCount := visible\<rparr>
      in st1\<lparr>startIndex := max 0 (min (int (length d) - visible) (startIndex st1))\<rparr>)"

text \<open>
  The initial values of the cells, the follow-live effect (run when \<open>data.length\<close> or
  \<open>followLive\<close> changes) and the state after the first mount: the follow-live effect,
  then the initial \<open>clampViewport()\<close> of the drawing effect.
\<close>

definition initialView :: "Kline list \<Rightarrow> view" where
  "initialView d =
     \<lparr>startIndex = 0, visibleCount = min 120 (max 20 (int (length d))),
      isDragging = False, lastX = 0, lastMouseX = 0, lastMouseY = 0,
      yMin = None, yMax = None, autoY = True, isResizingY = False,
      resizeAnchorY = 0, resizeAnchorPrice = Fin 0, resizeInitialRange = Fin 0,
      resizeStartMouseY = 0, resizeAnchorTopRatio = Fin (1 / 2)\<rparr>"

definition followEffect :: "Kline list \<Rightarrow> bool \<Rightarrow> view \<Rightarrow> view" where
  "followEffect d followLive st =
     (let visible = visibleCount st;
          atEnd = (max visible (int (length d) - 1) \<le> startIndex st + visible)
      in if followLive \<or> atEnd
         then st\<lparr>startIndex := max 0 (int (length d) - visible)\<rparr>
         else st)"

definition mountView :: "Kline list \<Rightarrow> bool \<Rightarrow> view" where
  "mountView d followLive = clampViewportLocal d (followEffect d followLive (initialView d))"

text \<open>The horizontal viewport of a state: its start index and its visible count.\<close>

definition viewport :: "view \<Rightarrow> int \<times> int" where
  "viewport st = (startIndex st, visibleCount st)"

section \<open>Horizontal zoom\<close>

text \<open>\<open>width - PADDING_LEFT - PADDING_RIGHT\<close>, two subtractions of doubles.\<close>

definition plotWidthOf :: "real \<Rightarrow> real" where
  "plotWidthOf width = fl (fl (width - PADDING_LEFT) - PADDING_RIGHT)"

text \<open>
  \<open>Math.max(1, Math.floor((width - PADDING_LEFT - PADDING_RIGHT) / visible) - candleGap)\<close>
  with \<open>candleGap = 2\<close>. The divisor \<open>visibleCount\<close> is at least 10 in every state the
  component reaches (each assignment to it is a \<open>max\<close> with 10 or with 20), so the
  quotient is a finite double.
\<close>

definition candleWidthOf :: "real \<Rightarrow> int \<Rightarrow> int" where
  "candleWidthOf width visible =
     max 1 (\<lfloor>fl (plotWidthOf width / real_of_int visible)\<rfloor> - 2)"

definition candleSpanOf :: "real \<Rightarrow> int \<Rightarrow> int" where
  "candleSpanOf width visible = candleWidthOf width visible + 2"

text \<open>The anchor pixel of a zoom: the given pixel, or the centre of the plot, kept in the plot.\<close>

definition zoomAnchor :: "real \<Rightarrow> real option \<Rightarrow> real" where
  "zoomAnchor width anchorX =
     (let plotWidth = plotWidthOf width;
          leftPad = PADDING_LEFT
      in max leftPad
           (min (fl (width - PADDING_RIGHT))
              (case anchorX of
                 None \<Rightarrow> fl (leftPad + real_of_int \<lfloor>fl (plotWidth / 2)\<rfloor>)
               | Some x \<Rightarrow> x)))"

text \<open>\<open>(anchor - leftPad) / span\<close>: the anchor's distance from the left pad, in bars.\<close>

definition anchorBars :: "real \<Rightarrow> real option \<Rightarrow> int \<Rightarrow> real" where
  "anchorBars width anchorX candleSpan =
     fl (fl (zoomAnchor width anchorX - PADDING_LEFT) / real_of_int candleSpan)"

text \<open>
  \<open>performZoomGlobal\<close> up to the assignment of \<open>startIndexRef\<close>, before the call of
  \<open>clampViewportLocal\<close>.
\<close>

definition zoomAssign :: "real \<Rightarrow> real \<Rightarrow> real option \<Rightarrow> view \<Rightarrow> view" where
  "zoomAssign width scale anchorX st =
     (let oldVisible = visibleCount st;
          oldCandleSpan = candleSpanOf width oldVisible;
          idxAtAnchor = startIndex st + js_round (anchorBars width anchorX oldCandleSpan);
          targetVisible = js_round (fl (real_of_int oldVisible * scale));
          st1 = st\<lparr>visibleCount := max 10 (min 5000 targetVisible)\<rparr>;
          newCandleSpan = candleSpanOf width (visibleCount st1);
          newStart = js_round (fl (real_of_int idxAtAnchor - anchorBars width anchorX newCandleSpan))
      in st1\<lparr>startIndex := newStart\<rparr>)"

definition performZoomGlobal :: "Kline list \<Rightarrow> real \<Rightarrow> real \<Rightarrow> real option \<Rightarrow> view \<Rightarrow> view" where
  "performZoomGlobal d width scale anchorX st = clampViewportLocal d (zoomAssign width scale anchorX st)"


section \<open>The imperative handle\<close>

datatype js_error = TypeError

text \<open>
  The two binary searches of \<open>setRangeByTime\<close> are one loop with two tests
  (\<open>openTime < startMs\<close> and \<open>openTime <= endMs\<close>). \<open>(lo + hi) >> 1\<close> is the floor of
  the half, the indices being far below \<open>2^30\<close>. Reading \<open>data[mid].openTime\<close> outside the
  array throws.
\<close>

function searchLoop :: "(int \<Rightarrow> bool) \<Rightarrow> Kline list \<Rightarrow> int \<Rightarrow> int \<Rightarrow> js_error + int" where
  "searchLoop p d lo hi =
     (if lo \<le> hi then
        (let mid = (lo + hi) div 2 in
         if mid < 0 \<or> int (length d) \<le> mid then Inl TypeError
         else if p (openTime (d ! nat mid)) then searchLoop p d (mid + 1) hi
         else searchLoop p d lo (mid - 1))
      else Inr lo)"
  by pat_completeness auto
termination
  by (relation "measure (\<lambda>(p, d, lo, hi). nat (hi - lo + 1))") auto

declare searchLoop.simps [simp del]

text \<open>\<open>startIdx\<close> and \<open>endIdx\<close> as \<open>setRangeByTime\<close> computes them.\<close>

definition rangeIndices :: "Kline list \<Rightarrow> int \<Rightarrow> int \<Rightarrow> js_error + (int \<times> int)" where
  "rangeIndices d startMs endMs =
     (let n = int (length d) in
      case searchLoop (\<lambda>t. t < startMs) d 0 (n - 1) of
        Inl e \<Rightarrow> Inl e
      | Inr lo \<Rightarrow>
          (let startIdx = min (max 0 lo) (n - 1) in
           case searchLoop (\<lambda>t. t \<le> endMs) d 0 (n - 1) of
             Inl e \<Rightarrow> Inl e
           | Inr lo2 \<Rightarrow> Inr (startIdx, min (max 0 (lo2 - 1)) (n - 1))))"

definition setRangeByTime :: "Kline list \<Rightarrow> int \<Rightarrow> int \<Rightarrow> view \<Rightarrow> js_error + view" where
  "setRangeByTime d startMs endMs st =
     (if d = [] then Inr st
      else if endMs \<le> startMs then Inr st
      else case rangeIndices d startMs endMs of
        Inl e \<Rightarrow> Inl e
      | Inr (startIdx, endIdx) \<Rightarrow>
          (let count = max 10 (endIdx - startIdx + 1);
               st1 = st\<lparr>visibleCount := count\<rparr>
           in Inr (st1\<lparr>startIndex := max 0 (min startIdx (max 0 (int (length d) - count)))\<rparr>)))"

definition scrollToEnd :: "Kline list \<Rightarrow> view \<Rightarrow> view" where
  "scrollToEnd d st = st\<lparr>startIndex := max 0 (int (length d) - visibleCount st)\<rparr>"

definition zoomIn :: "Kline list \<Rightarrow> real \<Rightarrow> view \<Rightarrow> view" where
  "zoomIn d width st = performZoomGlobal d width (fl (85 / 100)) None st"

definition zoomOut :: "Kline list \<Rightarrow> real \<Rightarrow> view \<Rightarrow> view" where
  "zoomOut d width st = performZoomGlobal d width (fl (115 / 100)) None st"

definition resetY :: "view \<Rightarrow> view" where
  "resetY st = st\<lparr>autoY := True, yMin := None, yMax := None\<rparr>"

definition resetView :: "Kline list \<Rightarrow> view \<Rightarrow> view" where
  "resetView d st =
     (let st1 = st\<lparr>visibleCount := min 120 (max 20 (int (length d)))\<rparr>;
          st2 = st1\<lparr>startIndex := max 0 (int (length d) - visibleCount st1)\<rparr>
      in st2\<lparr>autoY := True, yMin := None, yMax := None\<rparr>)"

section \<open>The price range of a frame\<close>

text \<open>The slice of visible bars, computed alike by \<open>draw\<close> and by the pointer handlers.\<close>

definition viewData :: "Kline list \<Rightarrow> view \<Rightarrow> Kline list" where
  "viewData d st =
     (let startIdx = startIndex st;
          visible = max 10 (min (int (length d)) (visibleCount st));
          endIndex = min (int (length d)) (startIdx + visible)
      in js_slice d startIdx endIndex)"



section \<open>Pointer and wheel handlers\<close>







definition handleMouseUp :: "view \<Rightarrow> view" where
  "handleMouseUp st = st\<lparr>isDragging := False, isResizingY := False\<rparr>"


section \<open>Live merge of kline updates\<close>

text \<open>The state update that \<open>App\<close> passes to \<open>setData\<close> for an update \<open>k\<close> of the kline stream.\<close>

definition klineOnUpdate :: "Kline list \<Rightarrow> Kline \<Rightarrow> Kline list" where
  "klineOnUpdate prev k =
     (if prev = [] then [k]
      else
        (let lst = last prev in
         if openTime k = openTime lst then butlast prev @ [k]
         else (let nxt = prev @ [k] in if 2000 < length nxt then tl nxt else nxt)))"

section \<open>Aggregation of trades into one-second bars\<close>

definition bucketOf :: "AggTrade \<Rightarrow> int" where
  "bucketOf t = (timestamp t div 1000) * 1000"

text \<open>
  The \<open>Map\<close> from second to trades, as an association list in insertion order:
  \<open>AList.update\<close> overwrites an existing key in place and appends a new one.
\<close>

fun groupBySecond :: "AggTrade list \<Rightarrow> (int \<times> AggTrade list) list \<Rightarrow> (int \<times> AggTrade list) list" where
  "groupBySecond [] m = m"
| "groupBySecond (t # ts) m =
     (let sec = bucketOf t;
          arr = (case map_of m sec of None \<Rightarrow> [] | Some a \<Rightarrow> a)
      in groupBySecond ts (AList.update sec (arr @ [t]) m))"

text \<open>
  The body of the loop over the sorted seconds: one bar from the trades \<open>arr0\<close> of
  the second \<open>s\<close>. \<open>Array.prototype.sort\<close> is stable, as \<open>sort_key\<close> is. A second
  without trades would make \<open>arr[0].price\<close> throw.
\<close>

definition bucketKline :: "int \<Rightarrow> AggTrade list \<Rightarrow> real option \<Rightarrow> js_error + Kline" where
  "bucketKline s arr0 prevClose =
     (case sort_key timestamp arr0 of
        [] \<Rightarrow> Inl TypeError
      | a # r \<Rightarrow>
          (let arr = a # r;
               opn = price a;
               cls = price (last arr);
               hi = fold max (map price r) (price a);
               lo = fold min (map price r) (price a);
               vol = foldl (\<lambda>sum x. sum + quantity x) 0 arr;
               numTrades = int (length arr)
           in Inr \<lparr>openTime = s,
                   open = (case prevClose of None \<Rightarrow> opn | Some c \<Rightarrow> c),
                   high = hi, low = lo, close = cls, volume = vol,
                   closeTime = s + 999, quoteAssetVolume = 0,
                   numberOfTrades = numTrades,
                   takerBuyBaseVolume = 0, takerBuyQuoteVolume = 0,
                   isClosed = Some True\<rparr>))"

text \<open>
  The loop itself, \<open>prevClose\<close> being \<open>undefined\<close> (\<open>None\<close>) at first and the
  \<open>close\<close> of the bar just pushed afterwards.
\<close>

fun buildKlines :: "(int \<times> AggTrade list) list \<Rightarrow> int list \<Rightarrow> real option \<Rightarrow> js_error + Kline list" where
  "buildKlines m [] prevClose = Inr []"
| "buildKlines m (s # ss) prevClose =
     (case map_of m s of
        None \<Rightarrow> Inl TypeError
      | Some arr0 \<Rightarrow>
          (case bucketKline s arr0 prevClose of
             Inl e \<Rightarrow> Inl e
           | Inr k \<Rightarrow>
               (case buildKlines m ss (Some (close k)) of
                  Inl e \<Rightarrow> Inl e
                | Inr ks \<Rightarrow> Inr (k # ks))))"

definition aggregateToOneSecondKlines :: "AggTrade list \<Rightarrow> js_error + Kline list" where
  "aggregateToOneSecondKlines trades =
     (if trades = [] then Inr []
      else
        (let bySecond = groupBySecond trades [];
             seconds = sort (map fst bySecond)
         in buildKlines bySecond seconds None))"

section \<open>Example data\<close>

text \<open>A bar with the given open time and prices, and sequences of such bars.\<close>

definition mkBar :: "int \<Rightarrow> real \<Rightarrow> real \<Rightarrow> real \<Rightarrow> real \<Rightarrow> Kline" where
  "mkBar t opn hi lo cls =
     \<lparr>openTime = t, open = opn, high = hi, low = lo, close = cls, volume = 0,
      closeTime = t + 59999, quoteAssetVolume = 0, numberOfTrades = 0,
      takerBuyBaseVolume = 0, takerBuyQuoteVolume = 0, isClosed = Some True\<rparr>"

definition flatBars :: "int list \<Rightarrow> Kline list" where
  "flatBars ts = map (\<lambda>t. mkBar t 1 1 1 1) ts"

definition minuteBars :: "nat \<Rightarrow> Kline list" where
  "minuteBars n = map (\<lambda>i. mkBar (60000 * int i) 1 1 1 1) [0..<n]"

definition fourBars :: "Kline list" where
  "fourBars = flatBars [100, 200, 300, 400]"






definition mkTrade :: "int \<Rightarrow> real \<Rightarrow> real \<Rightarrow> int \<Rightarrow> AggTrade" where
  "mkTrade i p q t = \<lparr>aggId = i, price = p, quantity = q, timestamp = t, isBuyerMaker = False\<rparr>"

definition threeTrades :: "AggTrade list" where
  "threeTrades = [mkTrade 1 10 1 1000, mkTrade 2 11 2 1500, mkTrade 3 9 3 1999]"

definition fourTrades :: "AggTrade list" where
  "fourTrades = [mkTrade 1 10 1 1000, mkTrade 2 12 1 2400, mkTrade 3 9 3 1999, mkTrade 4 11 2 2100]"




section \<open>Facts about the example data\<close>

lemma length_minuteBars: "length (minuteBars n) = n"
  by (simp add: minuteBars_def)

lemma minuteBars_nth: "i < n \<Longrightarrow> minuteBars n ! i = mkBar (60000 * int i) 1 1 1 1"
  by (simp add: minuteBars_def)

lemma minuteBars_last:
  "0 < n \<Longrightarrow> last (minuteBars n) = mkBar (60000 * int (n - 1)) 1 1 1 1"
  by (simp add: minuteBars_def last_map)

lemma minuteBars_Nil: "minuteBars n = [] \<longleftrightarrow> n = 0"
  by (simp add: minuteBars_def)



section \<open>Viewport invariant\<close>

lemma clamp_fields:
  "visibleCount (clampViewportLocal d st) = max 10 (min (int (length d)) (visibleCount st))"
  "startIndex (clampViewportLocal d st) =
     max 0 (min (int (length d) - max 10 (min (int (length d)) (visibleCount st))) (startIndex st))"
  by (simp_all add: clampViewportLocal_def Let_def)

text \<open>Every writer of \<open>visibleCount\<close> leaves at least 10 there.\<close>

lemma initialView_visible: "20 \<le> visibleCount (initialView d)"
  by (simp add: initialView_def)



lemma resetView_visible: "20 \<le> visibleCount (resetView d st)"
  by (simp add: resetView_def Let_def)

lemma setRangeByTime_visible:
  "10 \<le> visibleCount st \<Longrightarrow> setRangeByTime d startMs endMs st = Inr st' \<Longrightarrow> 10 \<le> visibleCount st'"
  by (auto simp: setRangeByTime_def Let_def split: if_splits sum.splits prod.splits)

text \<open>
  Claim C2, as amended. After \<open>clampViewportLocal\<close> on a sequence of length \<open>L\<close> the
  visible count is \<open>max 10 (min L v)\<close>: at least 10 and at most \<open>max 10 L\<close>; it is at
  most \<open>min L 5000\<close> when \<open>10 \<le> L\<close> and one of \<open>L\<close>, \<open>v\<close> is at most 5000. The start
  index lies between 0 and \<open>max 0 (L - visible)\<close>.
\<close>

theorem clamp_bounds:
  "visibleCount (clampViewportLocal d st) = max 10 (min (int (length d)) (visibleCount st))
   \<and> 10 \<le> visibleCount (clampViewportLocal d st)
   \<and> visibleCount (clampViewportLocal d st) \<le> max 10 (int (length d))
   \<and> (10 \<le> int (length d) \<and> (int (length d) \<le> 5000 \<or> visibleCount st \<le> 5000)
        \<longrightarrow> visibleCount (clampViewportLocal d st) \<le> min (int (length d)) 5000)
   \<and> 0 \<le> startIndex (clampViewportLocal d st)
   \<and> startIndex (clampViewportLocal d st)
        \<le> max 0 (int (length d) - visibleCount (clampViewportLocal d st))"
  by (auto simp add: clamp_fields)

theorem clamp_bounds_witness:
  "10 \<le> int (length (minuteBars 50))
   \<and> int (length (minuteBars 50)) \<le> 5000
   \<and> visibleCount (clampViewportLocal (minuteBars 50) (initialView (minuteBars 50)))
        \<le> min (int (length (minuteBars 50))) 5000
   \<and> visibleCount (clampViewportLocal (minuteBars 50) (initialView (minuteBars 50))) = 50"
  using clamp_bounds [of "minuteBars 50" "initialView (minuteBars 50)"]
  by (simp add: length_minuteBars initialView_def clamp_fields)

text \<open>
  With four bars and the initial count of 20 the clamp leaves 10 visible bars, more
  than \<open>min L 5000 = 4\<close>.
\<close>

theorem clamp_upper_bound_counterexample:
  "visibleCount (clampViewportLocal fourBars (initialView fourBars)) = 10
   \<and> \<not> visibleCount (clampViewportLocal fourBars (initialView fourBars))
         \<le> min (int (length fourBars)) 5000"
  by (simp add: clamp_fields fourBars_def flatBars_def initialView_def)

section \<open>Jump to a time range\<close>

text \<open>The search loop never reads outside the array and ends inside \<open>[lo, hi + 1]\<close>.\<close>

lemma searchLoop_total:
  "0 \<le> lo \<Longrightarrow> hi < int (length d) \<Longrightarrow> lo \<le> hi + 1 \<Longrightarrow>
     \<exists>r. searchLoop p d lo hi = Inr r \<and> lo \<le> r \<and> r \<le> hi + 1"
proof (induction p d lo hi rule: searchLoop.induct)
  case (1 p d lo hi)
  show ?case
  proof (cases "lo \<le> hi")
    case False
    then have "searchLoop p d lo hi = Inr lo"
      by (subst searchLoop.simps) simp
    with False "1.prems" show ?thesis by simp
  next
    case True
    define mid where "mid = (lo + hi) div 2"
    have m: "lo \<le> mid" "mid \<le> hi"
      using True unfolding mid_def by linarith+
    have inr: "\<not> (mid < 0 \<or> int (length d) \<le> mid)"
      using m "1.prems" by linarith
    show ?thesis
    proof (cases "p (openTime (d ! nat mid))")
      case pt: True
      have pre: "0 \<le> mid + 1" "hi < int (length d)" "mid + 1 \<le> hi + 1"
        using m "1.prems" by linarith+
      from "1.IH"(1)[OF True mid_def inr pt pre]
      obtain r where r: "searchLoop p d (mid + 1) hi = Inr r" "mid + 1 \<le> r" "r \<le> hi + 1"
        by blast
      have "searchLoop p d lo hi = searchLoop p d (mid + 1) hi"
        using True inr pt by (subst searchLoop.simps) (simp add: mid_def[symmetric] Let_def)
      with r m show ?thesis by simp
    next
      case pf: False
      have pre: "0 \<le> lo" "mid - 1 < int (length d)" "lo \<le> mid - 1 + 1"
        using m "1.prems" by linarith+
      from "1.IH"(2)[OF True mid_def inr pf pre]
      obtain r where r: "searchLoop p d lo (mid - 1) = Inr r" "lo \<le> r" "r \<le> mid - 1 + 1"
        by blast
      have "searchLoop p d lo hi = searchLoop p d lo (mid - 1)"
        using True inr pf by (subst searchLoop.simps) (simp add: mid_def[symmetric] Let_def)
      with r m show ?thesis by simp
    qed
  qed
qed

lemma rangeIndices_total: "\<exists>a b. rangeIndices d s e = Inr (a, b)"
proof -
  obtain r1 where r1: "searchLoop (\<lambda>t. t < s) d 0 (int (length d) - 1) = Inr r1"
    using searchLoop_total[of 0 "int (length d) - 1" d "\<lambda>t. t < s"] by auto
  obtain r2 where r2: "searchLoop (\<lambda>t. t \<le> e) d 0 (int (length d) - 1) = Inr r2"
    using searchLoop_total[of 0 "int (length d) - 1" d "\<lambda>t. t \<le> e"] by auto
  show ?thesis by (simp add: rangeIndices_def Let_def r1 r2)
qed

lemma four_openTimes:
  assumes "map openTime d = [100, 200, 300, 400]"
  obtains a b c e where "d = [a, b, c, e]" "openTime a = 100" "openTime b = 200"
    "openTime c = 300" "openTime e = 400"
  using assms by (auto simp: map_eq_Cons_conv)

text \<open>
  Claim C1, as amended. On bars with open times 100, 200, 300, 400,
  \<open>setRangeByTime(150, 350)\<close> finds \<open>startIdx = 1\<close> and \<open>endIdx = 2\<close> (the bars at 200
  and 300); the count is \<open>max 10 2 = 10\<close> and the start index, limited by
  \<open>max 0 (4 - 10)\<close>, is 0.
\<close>

theorem setRangeByTime_four_bars:
  assumes "map openTime d = [100, 200, 300, 400]"
  shows "rangeIndices d 150 350 = Inr (1, 2)
       \<and> setRangeByTime d 150 350 st = Inr (st\<lparr>visibleCount := 10, startIndex := 0\<rparr>)"
proof -
  from assms obtain a b c e where d: "d = [a, b, c, e]" "openTime a = 100" "openTime b = 200"
    "openTime c = 300" "openTime e = 400" by (rule four_openTimes)
  have r: "rangeIndices d 150 350 = Inr (1, 2)"
    by (simp add: rangeIndices_def searchLoop.simps d Let_def)
  show ?thesis using r by (simp add: setRangeByTime_def d(1) Let_def)
qed

theorem setRangeByTime_four_bars_witness:
  "map openTime fourBars = [100, 200, 300, 400]
   \<and> rangeIndices fourBars 150 350 = Inr (1, 2)
   \<and> map_sum id viewport (setRangeByTime fourBars 150 350 (mountView fourBars True)) = Inr (0, 10)"
proof -
  have h: "map openTime fourBars = [100, 200, 300, 400]"
    by (simp add: fourBars_def flatBars_def mkBar_def)
  show ?thesis
    using h setRangeByTime_four_bars [OF h, of "mountView fourBars True"]
    by (simp add: viewport_def)
qed

text \<open>
  The viewport after the call is \<open>(0, 10)\<close>, not \<open>(1, 2)\<close>.
\<close>

theorem setRangeByTime_four_bars_counterexample:
  "map_sum id viewport (setRangeByTime fourBars 150 350 (mountView fourBars True)) = Inr (0, 10)
   \<and> map_sum id viewport (setRangeByTime fourBars 150 350 (mountView fourBars True)) \<noteq> Inr (1, 2)"
proof -
  have r: "rangeIndices fourBars 150 350 = Inr (1, 2)"
    by (simp add: rangeIndices_def searchLoop.simps fourBars_def flatBars_def mkBar_def Let_def)
  have "setRangeByTime fourBars 150 350 (mountView fourBars True)
          = Inr ((mountView fourBars True)\<lparr>visibleCount := 10, startIndex := 0\<rparr>)"
    using r by (simp add: setRangeByTime_def Let_def) (simp add: fourBars_def flatBars_def)
  then show ?thesis by (simp add: viewport_def)
qed

text \<open>
  Claim C5. \<open>setRangeByTime\<close> returns without throwing, and a second call with the same
  arguments on its result returns that same state: the viewport after two calls is the
  viewport after one.
\<close>

theorem setRangeByTime_idempotent:
  "\<exists>st'. setRangeByTime d startMs endMs st = Inr st'
         \<and> setRangeByTime d startMs endMs st' = Inr st'"
proof -
  obtain a b where ab: "rangeIndices d startMs endMs = Inr (a, b)"
    using rangeIndices_total by blast
  show ?thesis by (simp add: setRangeByTime_def ab Let_def)
qed

lemma rangeIndices_minuteBars: "rangeIndices (minuteBars 50) 600000 1500000 = Inr (10, 25)"
  by (simp add: rangeIndices_def searchLoop.simps length_minuteBars minuteBars_nth mkBar_def Let_def)

theorem setRangeByTime_idempotent_witness:
  "\<exists>st'. setRangeByTime (minuteBars 50) 600000 1500000 (mountView (minuteBars 50) True) = Inr st'
         \<and> setRangeByTime (minuteBars 50) 600000 1500000 st' = Inr st'
         \<and> viewport st' = (10, 16)"
proof -
  from setRangeByTime_idempotent [of "minuteBars 50" 600000 1500000 "mountView (minuteBars 50) True"]
  obtain st' where
    st': "setRangeByTime (minuteBars 50) 600000 1500000 (mountView (minuteBars 50) True) = Inr st'"
      "setRangeByTime (minuteBars 50) 600000 1500000 st' = Inr st'"
    by auto
  have ne: "minuteBars 50 \<noteq> []"
    using length_minuteBars [of 50] by auto
  have "setRangeByTime (minuteBars 50) 600000 1500000 (mountView (minuteBars 50) True)
          = Inr ((mountView (minuteBars 50) True)\<lparr>visibleCount := 16, startIndex := 10\<rparr>)"
    using ne by (simp add: setRangeByTime_def rangeIndices_minuteBars length_minuteBars Let_def)
  with st'(1) have "st' = (mountView (minuteBars 50) True)\<lparr>visibleCount := 16, startIndex := 10\<rparr>"
    by simp
  then have "viewport st' = (10, 16)" by (simp add: viewport_def)
  with st' show ?thesis by blast
qed

text \<open>
  Claim C9. On an empty sequence, or when \<open>endMs \<le> startMs\<close>, \<open>setRangeByTime\<close>
  returns normally and leaves every cell of the state as it was: the start index, the
  visible count and the stored Y-range among them.
\<close>

theorem setRangeByTime_noop:
  "d = [] \<or> endMs \<le> startMs \<Longrightarrow> setRangeByTime d startMs endMs st = Inr st"
  by (auto simp: setRangeByTime_def)

theorem setRangeByTime_noop_witness:
  "setRangeByTime [] 150 350 (mountView [] True) = Inr (mountView [] True)
   \<and> (350::int) \<le> 350
   \<and> setRangeByTime fourBars 350 350 (mountView fourBars True) = Inr (mountView fourBars True)"
  using setRangeByTime_noop [of "[]" 350 150 "mountView [] True"]
    setRangeByTime_noop [of fourBars 350 350 "mountView fourBars True"]
  by simp

section \<open>Rounding to doubles\<close>













lemmas fl_eval = fl_def rhe_def expo.simps Let_def

text \<open>
  The rounding shows in the counts: zooming out of 50 bars gives 57, the product
  \<open>50 * 1.15\<close> being the double just below 57.5; a wheel-out with the control key at
  100 bars gives 103.
\<close>

lemma fl_fifty_bars: "js_round (fl (50 * fl (115 / 100))) = 57"
  by (simp add: js_round_def fl_eval)

lemma fl_ctrl_hundred_bars: "js_round (fl (100 * fl (fl (115 / 100) * fl (9 / 10)))) = 103"
  by (simp add: js_round_def fl_eval)

section \<open>Zoom round trip\<close>





















section \<open>Vertical gestures\<close>





text \<open>
  After a clamp the start index is inside a non-empty sequence, and then the visible
  slice is not empty.
\<close>

lemma clamp_start_in_range:
  "d \<noteq> [] \<Longrightarrow> 0 \<le> startIndex (clampViewportLocal d st)
     \<and> startIndex (clampViewportLocal d st) < int (length d)"
  by (cases d) (auto simp: clamp_fields)

lemma viewData_nonempty:
  assumes "0 \<le> startIndex st" and "startIndex st < int (length d)"
  shows "viewData d st \<noteq> []"
  using assms by (auto simp: viewData_def js_slice_def Let_def min_def max_def)





section \<open>Automatic price range\<close>








section \<open>Live merge\<close>

lemma klineOnUpdate_length: "length prev \<le> 2000 \<Longrightarrow> length (klineOnUpdate prev k) \<le> 2000"
  by (auto simp: klineOnUpdate_def Let_def)

lemma klineOnUpdate_fold_length:
  "length prev \<le> 2000 \<Longrightarrow> length (foldl klineOnUpdate prev ks) \<le> 2000"
  by (induction ks arbitrary: prev) (simp_all add: klineOnUpdate_length)

lemma klineOnUpdate_differs:
  "prev \<noteq> [] \<Longrightarrow> openTime k \<noteq> openTime (last prev) \<Longrightarrow>
     klineOnUpdate prev k = (if length prev < 2000 then prev @ [k] else tl prev @ [k])"
  by (auto simp: klineOnUpdate_def Let_def)

text \<open>
  Claim C4, as amended. An update whose open time equals that of the last bar replaces
  the last bar; one with a strictly greater open time is appended. The bound of 2000
  holds for a sequence that is at most 2000 bars long, not for every sequence: such a
  sequence stays at most 2000 bars long through any run of updates, the append to a
  full sequence dropping its first (oldest) bar. A longer sequence is not cut back:
  an update leaves at most \<open>max 2000 (length prev)\<close> bars.
\<close>

theorem live_merge:
  "klineOnUpdate [] k = [k]
   \<and> (prev \<noteq> [] \<and> openTime k = openTime (last prev) \<longrightarrow> klineOnUpdate prev k = butlast prev @ [k])
   \<and> (prev \<noteq> [] \<and> openTime (last prev) < openTime k \<longrightarrow>
        klineOnUpdate prev k = (if length prev < 2000 then prev @ [k] else tl prev @ [k]))
   \<and> length (klineOnUpdate prev k) \<le> max 2000 (length prev)
   \<and> (length prev \<le> 2000 \<longrightarrow> length (foldl klineOnUpdate prev ks) \<le> 2000)"
  by (auto simp: klineOnUpdate_def Let_def klineOnUpdate_fold_length)

theorem live_merge_witness:
  "flatBars [100, 200] \<noteq> []
   \<and> openTime (mkBar 200 1 2 1 2) = openTime (last (flatBars [100, 200]))
   \<and> klineOnUpdate (flatBars [100, 200]) (mkBar 200 1 2 1 2) = [mkBar 100 1 1 1 1, mkBar 200 1 2 1 2]
   \<and> minuteBars 2000 \<noteq> []
   \<and> openTime (last (minuteBars 2000)) < openTime (mkBar 120000000 1 1 1 1)
   \<and> klineOnUpdate (minuteBars 2000) (mkBar 120000000 1 1 1 1)
        = tl (minuteBars 2000) @ [mkBar 120000000 1 1 1 1]
   \<and> length (minuteBars 2000) \<le> 2000
   \<and> length (foldl klineOnUpdate (minuteBars 2000) [mkBar 120000000 1 1 1 1, mkBar 120060000 1 1 1 1])
        \<le> 2000"
proof -
  have a: "flatBars [100, 200] \<noteq> []"
    "openTime (mkBar 200 1 2 1 2) = openTime (last (flatBars [100, 200]))"
    by (simp_all add: flatBars_def mkBar_def)
  have b: "minuteBars 2000 \<noteq> []"
    "openTime (last (minuteBars 2000)) < openTime (mkBar 120000000 1 1 1 1)"
    by (simp_all add: minuteBars_Nil minuteBars_last mkBar_def)
  have c: "length (minuteBars 2000) \<le> 2000" by (simp add: length_minuteBars)
  have r: "butlast (flatBars [100, 200]) @ [mkBar 200 1 2 1 2] = [mkBar 100 1 1 1 1, mkBar 200 1 2 1 2]"
    by (simp add: flatBars_def)
  have e1: "klineOnUpdate (flatBars [100, 200]) (mkBar 200 1 2 1 2)
              = [mkBar 100 1 1 1 1, mkBar 200 1 2 1 2]"
    using a r live_merge [of "mkBar 200 1 2 1 2" "flatBars [100, 200]" "[]"] by simp
  note m = live_merge [of "mkBar 120000000 1 1 1 1" "minuteBars 2000"
        "[mkBar 120000000 1 1 1 1, mkBar 120060000 1 1 1 1]"]
  have e2: "klineOnUpdate (minuteBars 2000) (mkBar 120000000 1 1 1 1)
        = tl (minuteBars 2000) @ [mkBar 120000000 1 1 1 1]"
    using b m by (simp add: length_minuteBars)
  have e3: "length (foldl klineOnUpdate (minuteBars 2000)
                [mkBar 120000000 1 1 1 1, mkBar 120060000 1 1 1 1]) \<le> 2000"
    using c m by blast
  show ?thesis using a b c e1 e2 e3 by blast
qed

text \<open>
  The merge against the claim as stated, on a sequence of 2001 bars (one minute apart,
  the last at 120000000): the update at the last open time replaces the last bar, the
  update one minute later is appended and the first bar dropped, and both results hold
  2001 bars.
\<close>

theorem live_merge_counterexample:
  "length (minuteBars 2001) = 2001
   \<and> openTime (mkBar 120000000 1 2 1 2) = openTime (last (minuteBars 2001))
   \<and> klineOnUpdate (minuteBars 2001) (mkBar 120000000 1 2 1 2)
        = butlast (minuteBars 2001) @ [mkBar 120000000 1 2 1 2]
   \<and> length (klineOnUpdate (minuteBars 2001) (mkBar 120000000 1 2 1 2)) = 2001
   \<and> openTime (last (minuteBars 2001)) < openTime (mkBar 120060000 1 1 1 1)
   \<and> klineOnUpdate (minuteBars 2001) (mkBar 120060000 1 1 1 1)
        = tl (minuteBars 2001) @ [mkBar 120060000 1 1 1 1]
   \<and> length (klineOnUpdate (minuteBars 2001) (mkBar 120060000 1 1 1 1)) = 2001"
proof -
  have n: "minuteBars 2001 \<noteq> []" "length (minuteBars 2001) = 2001"
    by (simp_all add: minuteBars_Nil length_minuteBars)
  have t: "openTime (last (minuteBars 2001)) = 120000000"
    by (simp add: minuteBars_last mkBar_def)
  have r: "klineOnUpdate (minuteBars 2001) (mkBar 120000000 1 2 1 2)
        = butlast (minuteBars 2001) @ [mkBar 120000000 1 2 1 2]"
    using n t by (simp add: klineOnUpdate_def Let_def mkBar_def)
  have a: "klineOnUpdate (minuteBars 2001) (mkBar 120060000 1 1 1 1)
        = tl (minuteBars 2001) @ [mkBar 120060000 1 1 1 1]"
    using n t by (simp add: klineOnUpdate_def Let_def mkBar_def)
  show ?thesis unfolding r a using n t by (simp add: mkBar_def)
qed

text \<open>
  Claim C10. On a non-empty sequence every update whose open time differs from that
  of the last bar is appended (after which a sequence longer than 2000 loses its first
  bar), whether the open time is greater or smaller; so the merge alone does not keep
  the open times ascending: the bars at 100 and 200 followed by an update at 150 give
  the open times 100, 200, 150.
\<close>

theorem out_of_order_update_appended:
  "(prev \<noteq> [] \<and> openTime k \<noteq> openTime (last prev) \<longrightarrow>
        klineOnUpdate prev k = (if length prev < 2000 then prev @ [k] else tl prev @ [k])
        \<and> last (klineOnUpdate prev k) = k)
   \<and> sorted_wrt (<) (map openTime (flatBars [100, 200]))
   \<and> \<not> sorted_wrt (<) (map openTime (klineOnUpdate (flatBars [100, 200]) (mkBar 150 1 1 1 1)))"
proof (intro conjI impI)
  assume h: "prev \<noteq> [] \<and> openTime k \<noteq> openTime (last prev)"
  then show "klineOnUpdate prev k = (if length prev < 2000 then prev @ [k] else tl prev @ [k])"
    by (simp add: klineOnUpdate_differs)
  then show "last (klineOnUpdate prev k) = k" by simp
qed (simp_all add: klineOnUpdate_def flatBars_def mkBar_def Let_def)

theorem out_of_order_update_appended_witness:
  "flatBars [100, 200] \<noteq> []
   \<and> openTime (mkBar 150 1 1 1 1) < openTime (last (flatBars [100, 200]))
   \<and> klineOnUpdate (flatBars [100, 200]) (mkBar 150 1 1 1 1)
        = flatBars [100, 200] @ [mkBar 150 1 1 1 1]
   \<and> map openTime (klineOnUpdate (flatBars [100, 200]) (mkBar 150 1 1 1 1)) = [100, 200, 150]"
proof -
  have a: "flatBars [100, 200] \<noteq> []"
    "openTime (mkBar 150 1 1 1 1) < openTime (last (flatBars [100, 200]))"
    by (simp_all add: flatBars_def mkBar_def)
  have l: "length (flatBars [100, 200]) < 2000" by (simp add: flatBars_def)
  have "klineOnUpdate (flatBars [100, 200]) (mkBar 150 1 1 1 1)
        = flatBars [100, 200] @ [mkBar 150 1 1 1 1]"
    using a l out_of_order_update_appended [of "flatBars [100, 200]" "mkBar 150 1 1 1 1"] by simp
  then show ?thesis using a by (simp add: flatBars_def mkBar_def)
qed

section \<open>One-second aggregation\<close>

text \<open>The grouping map holds, for each second, the trades of that second in input order.\<close>

lemma groupBySecond_lookup:
  "map_of (groupBySecond ts m) s =
     (if filter (\<lambda>t. bucketOf t = s) ts = [] then map_of m s
      else Some ((case map_of m s of None \<Rightarrow> [] | Some a \<Rightarrow> a) @ filter (\<lambda>t. bucketOf t = s) ts))"
proof (induction ts arbitrary: m)
  case Nil
  then show ?case by simp
next
  case (Cons t ts)
  show ?case
    by (simp add: Cons.IH Let_def update_conv' split: option.splits)
qed

lemma groupBySecond_keys:
  "fst ` set (groupBySecond ts m) = fst ` set m \<union> bucketOf ` set ts"
proof -
  have "s \<in> dom (map_of (groupBySecond ts m)) \<longleftrightarrow> s \<in> dom (map_of m) \<or> s \<in> bucketOf ` set ts" for s
    by (auto simp: groupBySecond_lookup dom_def filter_empty_conv)
  then have "dom (map_of (groupBySecond ts m)) = dom (map_of m) \<union> bucketOf ` set ts" by blast
  then show ?thesis by (simp add: dom_map_of_conv_image_fst)
qed

lemma bucketKline_ok:
  assumes "arr0 \<noteq> []"
  shows "\<exists>k. bucketKline s arr0 pc = Inr k \<and> openTime k = s
           \<and> open k = (case pc of None \<Rightarrow> price (hd (sort_key timestamp arr0)) | Some c \<Rightarrow> c)"
proof -
  have "sort_key timestamp arr0 \<noteq> []" using assms by (metis length_0_conv length_sort)
  then obtain a r where "sort_key timestamp arr0 = a # r" by (cases "sort_key timestamp arr0") auto
  then show ?thesis by (cases pc) (simp_all add: bucketKline_def Let_def)
qed

lemma buildKlines_ok:
  assumes "\<forall>s \<in> set ss. \<exists>arr. map_of m s = Some arr \<and> arr \<noteq> []"
  shows "\<exists>ks. buildKlines m ss pc = Inr ks
           \<and> map openTime ks = ss
           \<and> (\<forall>i. Suc i < length ks \<longrightarrow> open (ks ! Suc i) = close (ks ! i))
           \<and> (ks \<noteq> [] \<longrightarrow> open (hd ks) =
                 (case pc of None \<Rightarrow> price (hd (sort_key timestamp (the (map_of m (hd ss))))) | Some c \<Rightarrow> c))"
  using assms
proof (induction ss arbitrary: pc)
  case Nil
  then show ?case by simp
next
  case (Cons s ss)
  from Cons.prems obtain arr where arr: "map_of m s = Some arr" "arr \<noteq> []" by auto
  from bucketKline_ok[OF arr(2), of s pc] obtain k where
    k: "bucketKline s arr pc = Inr k" "openTime k = s"
       "open k = (case pc of None \<Rightarrow> price (hd (sort_key timestamp arr)) | Some c \<Rightarrow> c)" by blast
  from Cons.IH[of "Some (close k)"] Cons.prems obtain ks where
    ks: "buildKlines m ss (Some (close k)) = Inr ks" "map openTime ks = ss"
        "\<forall>i. Suc i < length ks \<longrightarrow> open (ks ! Suc i) = close (ks ! i)"
        "ks \<noteq> [] \<longrightarrow> open (hd ks) = close k" by auto
  have adj: "\<forall>i. Suc i < length (k # ks) \<longrightarrow> open ((k # ks) ! Suc i) = close ((k # ks) ! i)"
  proof (intro allI impI)
    fix i assume "Suc i < length (k # ks)"
    then show "open ((k # ks) ! Suc i) = close ((k # ks) ! i)"
      using ks(3,4) by (cases i) (auto simp: hd_conv_nth)
  qed
  show ?case
    using arr k ks(1,2) adj by (cases pc) simp_all
qed

lemma aggregate_ok:
  "\<exists>ks. aggregateToOneSecondKlines trades = Inr ks
     \<and> (\<forall>i. Suc i < length ks \<longrightarrow> open (ks ! Suc i) = close (ks ! i))
     \<and> (ks \<noteq> [] \<longrightarrow> open (hd ks) =
           price (hd (sort_key timestamp (filter (\<lambda>t. bucketOf t = openTime (hd ks)) trades))))"
proof (cases "trades = []")
  case True
  then show ?thesis by (simp add: aggregateToOneSecondKlines_def)
next
  case False
  define m where "m = groupBySecond trades []"
  define ss where "ss = sort (map fst m)"
  have look: "map_of m s = Some (filter (\<lambda>t. bucketOf t = s) trades)
                  \<and> filter (\<lambda>t. bucketOf t = s) trades \<noteq> []" if "s \<in> set ss" for s
  proof -
    from that have "s \<in> bucketOf ` set trades"
      using groupBySecond_keys[of trades "[]"] by (simp add: ss_def m_def)
    then have "filter (\<lambda>t. bucketOf t = s) trades \<noteq> []"
      by (auto simp: filter_empty_conv)
    then show ?thesis
      by (simp add: m_def groupBySecond_lookup)
  qed
  then have pre: "\<forall>s \<in> set ss. \<exists>arr. map_of m s = Some arr \<and> arr \<noteq> []" by blast
  from buildKlines_ok[OF pre, of None] obtain ks where
    ks: "buildKlines m ss None = Inr ks" "map openTime ks = ss"
        "\<forall>i. Suc i < length ks \<longrightarrow> open (ks ! Suc i) = close (ks ! i)"
        "ks \<noteq> [] \<longrightarrow> open (hd ks) = price (hd (sort_key timestamp (the (map_of m (hd ss)))))"
    by auto
  have hd: "ks \<noteq> [] \<longrightarrow> open (hd ks) =
           price (hd (sort_key timestamp (filter (\<lambda>t. bucketOf t = openTime (hd ks)) trades)))"
  proof
    assume ne: "ks \<noteq> []"
    then have "ss \<noteq> []" using ks(2) by auto
    then have "hd ss \<in> set ss" by simp
    from look[OF this] have "the (map_of m (hd ss)) = filter (\<lambda>t. bucketOf t = hd ss) trades" by simp
    moreover have "hd ss = openTime (hd ks)" using ks(2) ne by (metis hd_map)
    ultimately show "open (hd ks) =
           price (hd (sort_key timestamp (filter (\<lambda>t. bucketOf t = openTime (hd ks)) trades)))"
      using ks(4) ne by simp
  qed
  show ?thesis
    using False ks(1,3) hd by (simp add: aggregateToOneSecondKlines_def Let_def m_def ss_def)
qed

lemma aggregate_three:
  assumes "map timestamp trades = [1000, 1500, 1999]"
    and "map price trades = [10, 11, 9]" and "map quantity trades = [1, 2, 3]"
  shows "\<exists>k. aggregateToOneSecondKlines trades = Inr [k] \<and> openTime k = 1000 \<and> open k = 10
            \<and> high k = 11 \<and> low k = 9 \<and> close k = 9 \<and> volume k = 6 \<and> numberOfTrades k = 3"
proof -
  from assms(1) obtain a b c where t: "trades = [a, b, c]"
    "timestamp a = 1000" "timestamp b = 1500" "timestamp c = 1999"
    by (auto simp: map_eq_Cons_conv)
  with assms(2,3) have p: "price a = 10" "price b = 11" "price c = 9"
    "quantity a = 1" "quantity b = 2" "quantity c = 3" by simp_all
  show ?thesis
    by (simp add: t p aggregateToOneSecondKlines_def bucketOf_def Let_def bucketKline_def)
qed

lemma aggregate_fourTrades:
  "\<exists>ks. aggregateToOneSecondKlines fourTrades = Inr ks \<and> map openTime ks = [1000, 2000]
     \<and> map open ks = [10, 9] \<and> map high ks = [10, 12] \<and> map low ks = [9, 11]
     \<and> map close ks = [9, 12] \<and> map volume ks = [4, 3] \<and> map numberOfTrades ks = [2, 2]"
  by (simp add: fourTrades_def mkTrade_def aggregateToOneSecondKlines_def bucketOf_def Let_def
      bucketKline_def)

text \<open>
  Claim C7. \<open>aggregateToOneSecondKlines\<close> returns a list of bars in which every bar
  but the first opens at the close of the bar before it, and the first opens at the
  price of the first trade (by timestamp) of its second. The trades at 1000, 1500 and
  1999 ms with prices 10, 11, 9 and quantities 1, 2, 3 give exactly one bar: open time
  1000, open 10, high 11, low 9, close 9, volume 6, three trades.
\<close>

theorem aggregate_one_second:
  "(\<exists>ks. aggregateToOneSecondKlines trades = Inr ks
      \<and> (\<forall>i. Suc i < length ks \<longrightarrow> open (ks ! Suc i) = close (ks ! i))
      \<and> (ks \<noteq> [] \<longrightarrow> open (hd ks) =
            price (hd (sort_key timestamp (filter (\<lambda>t. bucketOf t = openTime (hd ks)) trades)))))
   \<and> (map timestamp trades = [1000, 1500, 1999] \<and> map price trades = [10, 11, 9]
        \<and> map quantity trades = [1, 2, 3] \<longrightarrow>
      (\<exists>k. aggregateToOneSecondKlines trades = Inr [k] \<and> openTime k = 1000 \<and> open k = 10
            \<and> high k = 11 \<and> low k = 9 \<and> close k = 9 \<and> volume k = 6 \<and> numberOfTrades k = 3))"
proof (intro conjI impI)
  show "\<exists>ks. aggregateToOneSecondKlines trades = Inr ks
      \<and> (\<forall>i. Suc i < length ks \<longrightarrow> open (ks ! Suc i) = close (ks ! i))
      \<and> (ks \<noteq> [] \<longrightarrow> open (hd ks) =
            price (hd (sort_key timestamp (filter (\<lambda>t. bucketOf t = openTime (hd ks)) trades))))"
    by (rule aggregate_ok)
next
  assume "map timestamp trades = [1000, 1500, 1999] \<and> map price trades = [10, 11, 9]
        \<and> map quantity trades = [1, 2, 3]"
  then show "\<exists>k. aggregateToOneSecondKlines trades = Inr [k] \<and> openTime k = 1000 \<and> open k = 10
            \<and> high k = 11 \<and> low k = 9 \<and> close k = 9 \<and> volume k = 6 \<and> numberOfTrades k = 3"
    by (intro aggregate_three) simp_all
qed

theorem aggregate_one_second_witness:
  "map timestamp threeTrades = [1000, 1500, 1999] \<and> map price threeTrades = [10, 11, 9]
   \<and> map quantity threeTrades = [1, 2, 3]
   \<and> (\<exists>k. aggregateToOneSecondKlines threeTrades = Inr [k] \<and> openTime k = 1000 \<and> open k = 10
            \<and> high k = 11 \<and> low k = 9 \<and> close k = 9 \<and> volume k = 6 \<and> numberOfTrades k = 3)
   \<and> (\<exists>ks. aggregateToOneSecondKlines fourTrades = Inr ks \<and> length ks = 2
            \<and> open (ks ! Suc 0) = close (ks ! 0) \<and> open (ks ! 0) = 10)"
proof -
  have h: "map timestamp threeTrades = [1000, 1500, 1999] \<and> map price threeTrades = [10, 11, 9]
        \<and> map quantity threeTrades = [1, 2, 3]"
    by (simp add: threeTrades_def mkTrade_def)
  have one: "\<exists>k. aggregateToOneSecondKlines threeTrades = Inr [k] \<and> openTime k = 1000 \<and> open k = 10
            \<and> high k = 11 \<and> low k = 9 \<and> close k = 9 \<and> volume k = 6 \<and> numberOfTrades k = 3"
    by (rule mp [OF conjunct2 [OF aggregate_one_second [of threeTrades]] h])
  obtain ks where ks: "aggregateToOneSecondKlines fourTrades = Inr ks"
      "map openTime ks = [1000, 2000]" "map open ks = [10, 9]"
    using aggregate_fourTrades by auto
  from ks(2) have l: "length ks = 2"
    using length_map [of openTime ks] by simp
  from conjunct1 [OF aggregate_one_second [of fourTrades]] ks(1)
  have "\<forall>i. Suc i < length ks \<longrightarrow> open (ks ! Suc i) = close (ks ! i)" by auto
  with l have adj: "open (ks ! Suc 0) = close (ks ! 0)" by simp
  have "map open ks ! 0 = 10" by (simp add: ks(3))
  with l have o: "open (ks ! 0) = 10" by simp
  from ks(1) l adj o
  have two: "\<exists>ks. aggregateToOneSecondKlines fourTrades = Inr ks \<and> length ks = 2
            \<and> open (ks ! Suc 0) = close (ks ! 0) \<and> open (ks ! 0) = 10"
    by (intro exI [of _ ks]) simp
  show ?thesis using h one two by (intro conjI) simp_all
qed

end
